theory Spec2Isabelle
  imports Complex_Main
begin

section \<open>Data model\<close>

text \<open>
  A JavaScript \<open>number\<close> that carries a coordinate, an angle or a length is modelled as a
  \<^typ>\<open>real\<close>: \<open>Math.cos\<close>, \<open>Math.sin\<close>, \<open>Math.sqrt\<close>, \<open>Math.abs\<close> and \<open>Math.PI\<close>
  are \<^const>\<open>cos\<close>, \<^const>\<open>sin\<close>, \<^const>\<open>sqrt\<close>, \<^const>\<open>abs\<close> and \<^const>\<open>pi\<close>.
  The rounding, overflow and NaN of IEEE double precision are not part of this model, and
  the theorems that settle the claims use a division only where its divisor is not zero.
  The one place where the rounding decides a claim, the angle at which the mesh and the grid
  evaluate the parametrisation, has a double-precision model of its own below.  A \<open>number\<close> that
  counts (the resolution, a vertex index) is an \<^typ>\<open>int\<close>; a loop counter, which starts
  at 0 or 1 and is incremented, is a \<^typ>\<open>nat\<close>.
\<close>

text \<open>
  Modelled from the spec: the declarations of \<open>Point3D\<close>, \<open>MobiusStripParams\<close>,
  \<open>MobiusStripProperties\<close> and \<open>MobiusStripData\<close> in \<open>../types\<close> are not among the
  sources; the fields are the ones the code reads and writes.
\<close>

record Point3D =
  x :: real
  y :: real
  z :: real

record MobiusStripParams =
  radius :: real
  width :: real
  resolution :: int

record MobiusStripProperties =
  surfaceArea :: real
  edgeLength :: real

text \<open>
  A JavaScript array is a list of slots; a slot that was never written is a hole
  (\<open>None\<close>).  Writing at an index below the length overwrites the slot, writing at or
  beyond the length extends the array and leaves holes in between.
\<close>

type_synonym 'a js_array = "'a option list"

definition array_set :: "'a js_array \<Rightarrow> nat \<Rightarrow> 'a \<Rightarrow> 'a js_array" where
  "array_set xs i v =
     (if i < length xs then xs[i := Some v]
      else xs @ replicate (i - length xs) None @ [Some v])"

text \<open>
  The source declares \<open>points\<close> as \<open>Point3D[][][]\<close> and fills it as an array of rows of
  points; the model has the value that is built.
\<close>

record MobiusStripData =
  points :: "Point3D js_array js_array"
  properties :: MobiusStripProperties

datatype js_error = TypeError

text \<open>
  \<open>points[i][j] = p\<close>: reading the hole or the missing slot \<open>points[i]\<close> gives
  \<open>undefined\<close>, and writing a property of \<open>undefined\<close> throws.
\<close>

definition set_cell ::
  "Point3D js_array js_array \<Rightarrow> nat \<Rightarrow> nat \<Rightarrow> Point3D \<Rightarrow> js_error + Point3D js_array js_array" where
  "set_cell pts i j p =
     (if i < length pts
      then (case pts ! i of
              None \<Rightarrow> Inl TypeError
            | Some row \<Rightarrow> Inr (pts[i := Some (array_set row j p)]))
      else Inl TypeError)"

text \<open>A counting loop whose body may throw: the first error ends the loop.\<close>

fun for_each :: "nat list \<Rightarrow> (nat \<Rightarrow> 's \<Rightarrow> js_error + 's) \<Rightarrow> 's \<Rightarrow> js_error + 's" where
  "for_each [] body s = Inr s"
| "for_each (i # rest) body s =
     (case body i s of Inl e \<Rightarrow> Inl e | Inr s' \<Rightarrow> for_each rest body s')"

text \<open>
  The buffers that \<open>generateMobiusGeometry\<close> hands to the \<open>THREE.BufferGeometry\<close>: the
  attribute \<open>position\<close> is made of \<open>vertices\<close>, the attribute \<open>color\<close> of \<open>colors\<close>, both
  with item size 3, and the index of \<open>indices\<close>.  The geometry object itself and
  \<open>computeVertexNormals\<close> belong to the library and are outside the model.
\<close>

record MeshBuffers =
  vertices :: "real list"
  indices :: "int list"
  colors :: "real list"

section \<open>Surface evaluation and vector algebra\<close>

definition calculateMobiusPoint :: "real \<Rightarrow> real \<Rightarrow> real \<Rightarrow> Point3D" where
  "calculateMobiusPoint u v R =
     \<lparr> x = (R + v * cos (u / 2)) * cos u,
       y = (R + v * cos (u / 2)) * sin u,
       z = v * sin (u / 2) \<rparr>"

definition calculatePartialDerivatives :: "real \<Rightarrow> real \<Rightarrow> real \<Rightarrow> Point3D \<times> Point3D" where
  "calculatePartialDerivatives u v R =
     (let du = \<lparr> x = - (R + v * cos (u / 2)) * sin u - (v / 2) * sin (u / 2) * cos u,
                 y = (R + v * cos (u / 2)) * cos u - (v / 2) * sin (u / 2) * sin u,
                 z = (v / 2) * cos (u / 2) \<rparr>;
          dv = \<lparr> x = cos (u / 2) * cos u,
                 y = cos (u / 2) * sin u,
                 z = sin (u / 2) \<rparr>
      in (du, dv))"

definition crossProduct :: "Point3D \<Rightarrow> Point3D \<Rightarrow> Point3D" where
  "crossProduct a b =
     \<lparr> x = y a * z b - z a * y b,
       y = z a * x b - x a * z b,
       z = x a * y b - y a * x b \<rparr>"

definition magnitude :: "Point3D \<Rightarrow> real" where
  "magnitude v = sqrt (x v * x v + y v * y v + z v * z v)"

definition distance :: "Point3D \<Rightarrow> Point3D \<Rightarrow> real" where
  "distance a b =
     (let dx = x b - x a; dy = y b - y a; dz = z b - z a
      in sqrt (dx * dx + dy * dy + dz * dz))"

section \<open>The estimators and the grid\<close>

text \<open>
  \<open>Math.max(10, Math.floor(resolution / 5))\<close>, which the first source file writes out at
  each use and the second one binds to \<open>vSegments\<close>.
\<close>

definition vSegments :: "int \<Rightarrow> int" where
  "vSegments res = max 10 \<lfloor>of_int res / (5::real)\<rfloor>"

definition calculateSurfaceArea :: "MobiusStripParams \<Rightarrow> real" where
  "calculateSurfaceArea params =
     (let uStep = (2 * pi) / of_int (resolution params);
          vStep = width params / of_int (vSegments (resolution params))
      in fold (\<lambda>i area.
            let u = of_nat i * uStep
            in fold (\<lambda>j area.
                 let v = ((of_nat j / of_int (vSegments (resolution params))) - 0.5)
                           * width params;
                     (du, dv) = calculatePartialDerivatives u v (radius params);
                     normal = crossProduct du dv
                 in area + magnitude normal * uStep * vStep)
               [0..<nat (vSegments (resolution params))] area)
          [0..<nat (resolution params)] 0)"

definition calculateEdgeLength :: "MobiusStripParams \<Rightarrow> real" where
  "calculateEdgeLength params =
     (let uStep = (2 * pi) / of_int (resolution params);
          length = 0;
          prevPoint = calculateMobiusPoint 0 (width params / 2) (radius params)
      in snd (fold (\<lambda>i (prevPoint, length).
                 let u = of_nat i * uStep;
                     currentPoint = calculateMobiusPoint u (width params / 2) (radius params)
                 in (currentPoint, length + distance prevPoint currentPoint))
               [1..<nat (resolution params + 1)] (prevPoint, length)))"

definition calculateMobiusStripData :: "MobiusStripParams \<Rightarrow> js_error + MobiusStripData" where
  "calculateMobiusStripData params =
     (let uStep = (2 * pi) / of_int (resolution params);
          vStep = width params / of_int (vSegments (resolution params));
          filled =
            for_each [0..<nat (resolution params + 1)]
              (\<lambda>i pts.
                 let u = of_nat i * uStep
                 in for_each [0..<nat (vSegments (resolution params) + 1)]
                      (\<lambda>j pts.
                         let v = ((of_nat j / of_int (vSegments (resolution params))) - 0.5)
                                   * width params
                         in set_cell pts i j (calculateMobiusPoint u v (radius params)))
                      (array_set pts i []))
              []
      in case filled of
           Inl e \<Rightarrow> Inl e
         | Inr pts \<Rightarrow>
             Inr \<lparr> points = pts,
                   properties = \<lparr> surfaceArea = calculateSurfaceArea params,
                                  edgeLength = calculateEdgeLength params \<rparr> \<rparr>)"

section \<open>The mesh\<close>

definition generateMobiusGeometry :: "MobiusStripParams \<Rightarrow> MeshBuffers" where
  "generateMobiusGeometry params =
     (let uSegments = resolution params;
          vSegments = vSegments (resolution params);
          (vertices, colors) =
            fold (\<lambda>i (vertices, colors).
                let u = (of_nat i / of_int uSegments) * pi * 2
                in fold (\<lambda>j (vertices, colors).
                     let v = ((of_nat j / of_int vSegments) - 0.5) * width params;
                         x = (radius params + v * cos (u / 2)) * cos u;
                         y = (radius params + v * cos (u / 2)) * sin u;
                         z = v * sin (u / 2);
                         colorFactor = \<bar>v\<bar> / (width params / 2)
                     in (vertices @ [x, y, z],
                         colors @ [0.2 + 0.3 * colorFactor, 0.8 - 0.2 * colorFactor,
                                   0.6 + 0.2 * colorFactor]))
                   [0..<nat (vSegments + 1)] (vertices, colors))
              [0..<nat (uSegments + 1)] ([], []);
          indices =
            fold (\<lambda>i indices.
                fold (\<lambda>j indices.
                     let a = of_nat i * (vSegments + 1) + of_nat j;
                         b = a + 1;
                         c = a + (vSegments + 1);
                         d = c + 1
                     in (indices @ [a, b, d]) @ [a, d, c])
                   [0..<nat vSegments] indices)
              [0..<nat uSegments] []
      in \<lparr> vertices = vertices, indices = indices, colors = colors \<rparr>)"

text \<open>
  How the renderer reads the buffers: an attribute of item size 3 holds item \<open>k\<close> in the
  slots \<open>3k\<close>, \<open>3k + 1\<close>, \<open>3k + 2\<close>, and the index buffer holds one triangle in every
  three consecutive entries.
\<close>

definition vertex_at :: "MeshBuffers \<Rightarrow> nat \<Rightarrow> Point3D option" where
  "vertex_at g k =
     (if 3 * k + 2 < length (vertices g)
      then Some \<lparr> x = vertices g ! (3 * k), y = vertices g ! (3 * k + 1), z = vertices g ! (3 * k + 2) \<rparr>
      else None)"

definition color_at :: "MeshBuffers \<Rightarrow> nat \<Rightarrow> (real \<times> real \<times> real) option" where
  "color_at g k =
     (if 3 * k + 2 < length (colors g)
      then Some (colors g ! (3 * k), colors g ! (3 * k + 1), colors g ! (3 * k + 2))
      else None)"

fun triangles :: "int list \<Rightarrow> (int \<times> int \<times> int) list" where
  "triangles (a # b # c # rest) = (a, b, c) # triangles rest"
| "triangles _ = []"

section \<open>The specification's formulas\<close>

text \<open>
  The definitions of this section follow the words of the specification, not the code;
  the theorems compare the code with them.
\<close>

definition spec_vSegments :: "int \<Rightarrow> int" where
  "spec_vSegments n = max 10 (n div 5)"

definition spec_dr_du :: "real \<Rightarrow> real \<Rightarrow> real \<Rightarrow> real \<times> real \<times> real" where
  "spec_dr_du u v R =
     (- (R + v * cos (u / 2)) * sin u - (v / 2) * sin (u / 2) * cos u,
      (R + v * cos (u / 2)) * cos u - (v / 2) * sin (u / 2) * sin u,
      (v / 2) * cos (u / 2))"

definition spec_dr_dv :: "real \<Rightarrow> real \<Rightarrow> real \<Rightarrow> real \<times> real \<times> real" where
  "spec_dr_dv u v R = (cos (u / 2) * cos u, cos (u / 2) * sin u, sin (u / 2))"

fun spec_cross_norm :: "real \<times> real \<times> real \<Rightarrow> real \<times> real \<times> real \<Rightarrow> real" where
  "spec_cross_norm (a1, a2, a3) (b1, b2, b3) =
     sqrt ((a2 * b3 - a3 * b2)\<^sup>2 + (a3 * b1 - a1 * b3)\<^sup>2 + (a1 * b2 - a2 * b1)\<^sup>2)"

definition spec_surface_area :: "real \<Rightarrow> real \<Rightarrow> int \<Rightarrow> real" where
  "spec_surface_area R w n =
     (let vs = spec_vSegments n; \<Delta>u = 2 * pi / of_int n; \<Delta>v = w / of_int vs
      in \<Sum>i = 0..<nat n. \<Sum>j = 0..<nat vs.
           spec_cross_norm (spec_dr_du (of_nat i * \<Delta>u) ((of_nat j / of_int vs - 0.5) * w) R)
                           (spec_dr_dv (of_nat i * \<Delta>u) ((of_nat j / of_int vs - 0.5) * w) R)
             * (\<Delta>u * \<Delta>v))"

definition spec_euclid :: "Point3D \<Rightarrow> Point3D \<Rightarrow> real" where
  "spec_euclid a b = sqrt ((x a - x b)\<^sup>2 + (y a - y b)\<^sup>2 + (z a - z b)\<^sup>2)"

definition spec_edge_point :: "real \<Rightarrow> real \<Rightarrow> int \<Rightarrow> nat \<Rightarrow> Point3D" where
  "spec_edge_point R w n i = calculateMobiusPoint (of_nat i * (2 * pi / of_int n)) (w / 2) R"

definition spec_grid_point :: "real \<Rightarrow> real \<Rightarrow> int \<Rightarrow> nat \<Rightarrow> nat \<Rightarrow> Point3D" where
  "spec_grid_point R w n i j =
     calculateMobiusPoint (of_nat i * (2 * pi / of_int n))
        ((of_nat j / of_int (spec_vSegments n) - 0.5) * w) R"

definition spec_color :: "real \<Rightarrow> real \<Rightarrow> real \<times> real \<times> real" where
  "spec_color v w =
     (let f = \<bar>v\<bar> / (w / 2) in (0.2 + 0.3 * f, 0.8 - 0.2 * f, 0.6 + 0.2 * f))"

definition valid_params :: "MobiusStripParams \<Rightarrow> bool" where
  "valid_params p \<longleftrightarrow>
     0.5 \<le> radius p \<and> radius p \<le> 5 \<and> 0.1 \<le> width p \<and> width p \<le> 2 \<and>
     10 \<le> resolution p \<and> resolution p \<le> 200"

section \<open>Auxiliary definitions\<close>

text \<open>
  The term that one pass of the inner loop of \<open>calculateSurfaceArea\<close> adds to \<open>area\<close>.
\<close>

definition area_element :: "MobiusStripParams \<Rightarrow> nat \<Rightarrow> nat \<Rightarrow> real" where
  "area_element params i j =
     (let uStep = (2 * pi) / of_int (resolution params);
          vStep = width params / of_int (vSegments (resolution params));
          u = of_nat i * uStep;
          v = ((of_nat j / of_int (vSegments (resolution params))) - 0.5) * width params
      in magnitude (crossProduct (fst (calculatePartialDerivatives u v (radius params)))
                                 (snd (calculatePartialDerivatives u v (radius params))))
           * uStep * vStep)"

text \<open>
  What one pass of the inner loops of \<open>generateMobiusGeometry\<close> pushes: the three
  coordinates and the three colour components of vertex \<open>(i, j)\<close>, and the six indices of
  cell \<open>(i, j)\<close>.
\<close>

definition mesh_vertex :: "MobiusStripParams \<Rightarrow> nat \<Rightarrow> nat \<Rightarrow> real list" where
  "mesh_vertex params i j =
     (let u = (of_nat i / of_int (resolution params)) * pi * 2;
          v = ((of_nat j / of_int (vSegments (resolution params))) - 0.5) * width params
      in [(radius params + v * cos (u / 2)) * cos u,
          (radius params + v * cos (u / 2)) * sin u,
          v * sin (u / 2)])"

definition mesh_color :: "MobiusStripParams \<Rightarrow> nat \<Rightarrow> real list" where
  "mesh_color params j =
     (let v = ((of_nat j / of_int (vSegments (resolution params))) - 0.5) * width params;
          colorFactor = \<bar>v\<bar> / (width params / 2)
      in [0.2 + 0.3 * colorFactor, 0.8 - 0.2 * colorFactor, 0.6 + 0.2 * colorFactor])"

definition cell_indices :: "int \<Rightarrow> nat \<Rightarrow> nat \<Rightarrow> int list" where
  "cell_indices vs i j =
     (let a = of_nat i * (vs + 1) + of_nat j; b = a + 1; c = a + (vs + 1); d = c + 1
      in [a, b, d, a, d, c])"

definition grid_of :: "nat \<Rightarrow> nat \<Rightarrow> (nat \<Rightarrow> nat \<Rightarrow> 'a list) \<Rightarrow> 'a list" where
  "grid_of n m f = concat (map (\<lambda>i. concat (map (f i) [0..<m])) [0..<n])"

text \<open>The two triangles that the six indices of cell \<open>(i, j)\<close> are read as.\<close>

definition cell_triangles :: "int \<Rightarrow> nat \<Rightarrow> nat \<Rightarrow> (int \<times> int \<times> int) list" where
  "cell_triangles vs i j =
     (let a = of_nat i * (vs + 1) + of_nat j; b = a + 1; c = a + (vs + 1); d = c + 1
      in [(a, b, d), (a, d, c)])"

section \<open>Double-precision evaluation of the angle\<close>

text \<open>
  A finite double is modelled by the real number it denotes (the sign of a zero is not
  kept).  \<open>fl64\<close> rounds a real to the nearest double, ties to the even significand:
  \<open>scale_down\<close> and \<open>scale_up\<close> bring the magnitude to \<open>m 2\<^sup>e\<close> with
  \<open>2\<^sup>5\<^sup>2 \<le> m < 2\<^sup>5\<^sup>3\<close>, or to \<open>e = -1074\<close> for a subnormal, and \<open>m\<close> is rounded to an
  integer.  \<open>None\<close> stands for a result that is not a finite number (the rounded
  magnitude reaches \<open>2\<^sup>1\<^sup>0\<^sup>2\<^sup>4\<close>, or a division by zero).
\<close>

function scale_down :: "real \<Rightarrow> int \<Rightarrow> real \<times> int" where
  "scale_down m e = (if 2 ^ 53 \<le> m then scale_down (m / 2) (e + 1) else (m, e))"
  by pat_completeness auto
termination
proof (relation "measure (\<lambda>(m, e). nat \<lfloor>m\<rfloor>)")
  show "wf (measure (\<lambda>(m, e). nat \<lfloor>m\<rfloor>))" by simp
next
  fix m :: real and e :: int
  assume "2 ^ 53 \<le> m"
  then have half: "1 \<le> m / 2" by simp
  then have "m / 2 + 1 \<le> m" by simp
  then have "\<lfloor>m / 2 + 1\<rfloor> \<le> \<lfloor>m\<rfloor>" by (rule floor_mono)
  then have less: "\<lfloor>m / 2\<rfloor> < \<lfloor>m\<rfloor>" by simp
  have "0 \<le> \<lfloor>m / 2\<rfloor>" using half by simp
  with less have "nat \<lfloor>m / 2\<rfloor> < nat \<lfloor>m\<rfloor>" by linarith
  then show "((m / 2, e + 1), (m, e)) \<in> measure (\<lambda>(m, e). nat \<lfloor>m\<rfloor>)"
    by simp
qed

function scale_up :: "real \<Rightarrow> int \<Rightarrow> real \<times> int" where
  "scale_up m e = (if m < 2 ^ 52 \<and> - 1074 < e then scale_up (m * 2) (e - 1) else (m, e))"
  by pat_completeness auto
termination
  by (relation "measure (\<lambda>(m, e). nat (e + 1074))") auto

definition round_half_even :: "real \<Rightarrow> int" where
  "round_half_even q =
     (let f = \<lfloor>q\<rfloor>; r = q - of_int f
      in if r < 1 / 2 then f else if 1 / 2 < r then f + 1 else if even f then f else f + 1)"

definition pow2 :: "int \<Rightarrow> real" where
  "pow2 e = (if 0 \<le> e then 2 ^ nat e else 1 / 2 ^ nat (- e))"

definition fl64 :: "real \<Rightarrow> real option" where
  "fl64 v =
     (if v = 0 then Some 0
      else let (m, e) = scale_down \<bar>v\<bar> 0;
               (m, e) = scale_up m e;
               r = of_int (round_half_even m) * pow2 e
           in if 2 ^ 1024 \<le> r then None else Some (if v < 0 then - r else r))"

text \<open>\<open>Math.PI\<close> is the double \<open>0x400921FB54442D18\<close>.\<close>

definition Math_PI :: real where
  "Math_PI = 884279719003555 / 281474976710656"

definition f64_mul :: "real \<Rightarrow> real \<Rightarrow> real option" where
  "f64_mul a b = fl64 (a * b)"

definition f64_div :: "real \<Rightarrow> real \<Rightarrow> real option" where
  "f64_div a b = (if b = 0 then None else fl64 (a / b))"

text \<open>
  The angle of row \<open>i\<close> as the two source files compute it, one rounding after each
  operation: \<open>(i / uSegments) * Math.PI * 2\<close> in \<open>generateMobiusGeometry\<close>, and
  \<open>uStep = (2 * Math.PI) / resolution\<close>, \<open>u = i * uStep\<close> in \<open>calculateMobiusStripData\<close>,
  which is also the \<open>u\<^sub>i = i (2\<pi> / resolution)\<close> of the specification.
\<close>

definition generateMobiusGeometry_u_f64 :: "nat \<Rightarrow> int \<Rightarrow> real option" where
  "generateMobiusGeometry_u_f64 i uSegments =
     Option.bind (f64_div (of_nat i) (of_int uSegments)) (\<lambda>q.
     Option.bind (f64_mul q Math_PI) (\<lambda>t. f64_mul t 2))"

definition calculateMobiusStripData_u_f64 :: "nat \<Rightarrow> int \<Rightarrow> real option" where
  "calculateMobiusStripData_u_f64 i res =
     Option.bind (f64_mul 2 Math_PI) (\<lambda>twoPi.
     Option.bind (f64_div twoPi (of_int res)) (\<lambda>uStep. f64_mul (of_nat i) uStep))"

section \<open>The parametrisation\<close>

text \<open>
  C3: for all \<open>u\<close>, \<open>v\<close>, \<open>R\<close> the point returned by \<open>calculateMobiusPoint\<close> is
  \<open>((R + v cos(u/2)) cos u, (R + v cos(u/2)) sin u, v sin(u/2))\<close>, and at \<open>u = 0\<close> it is
  \<open>(R + v, 0, 0)\<close>.
\<close>

theorem calculateMobiusPoint_formula:
  "calculateMobiusPoint u v R =
     \<lparr> x = (R + v * cos (u / 2)) * cos u, y = (R + v * cos (u / 2)) * sin u, z = v * sin (u / 2) \<rparr>
   \<and> calculateMobiusPoint 0 v R = \<lparr> x = R + v, y = 0, z = 0 \<rparr>"
  by (simp add: calculateMobiusPoint_def)

section \<open>Surface area\<close>

lemma fold_add_sum:
  fixes f :: "nat \<Rightarrow> real"
  shows "fold (\<lambda>i acc. acc + f i) [0..<n] s = s + (\<Sum>i = 0..<n. f i)"
  by (induction n arbitrary: s) simp_all

lemma vSegments_spec: "vSegments n = spec_vSegments n"
proof -
  have "\<lfloor>of_int n / (5::real)\<rfloor> = n div 5"
    using floor_divide_of_int_eq[of n 5, where ?'a = real] by simp
  then show ?thesis by (simp add: vSegments_def spec_vSegments_def)
qed

lemma vSegments_ge: "10 \<le> vSegments n"
  by (simp add: vSegments_def)

lemma calculateSurfaceArea_sum:
  "calculateSurfaceArea params =
     (\<Sum>i = 0..<nat (resolution params). \<Sum>j = 0..<nat (vSegments (resolution params)).
        area_element params i j)"
  unfolding calculateSurfaceArea_def area_element_def Let_def split_def fold_add_sum
  by simp

lemma magnitude_cross_spec:
  "magnitude (crossProduct (fst (calculatePartialDerivatives u v R))
                           (snd (calculatePartialDerivatives u v R)))
     = spec_cross_norm (spec_dr_du u v R) (spec_dr_dv u v R)"
  by (simp add: magnitude_def crossProduct_def calculatePartialDerivatives_def
        spec_dr_du_def spec_dr_dv_def power2_eq_square)

text \<open>
  C1: for parameters with an integer resolution of at least 10, \<open>calculateSurfaceArea\<close>
  returns the double sum, over \<open>i\<close> in \<open>[0, resolution)\<close> and \<open>j\<close> in \<open>[0, vSegments)\<close>,
  of \<open>|dr/du \<times> dr/dv|\<close> at \<open>(u\<^sub>i, v\<^sub>j)\<close> times \<open>\<Delta>u \<Delta>v\<close>, with
  \<open>vSegments = max(10, floor(resolution / 5))\<close>, \<open>\<Delta>u = 2\<pi> / resolution\<close>,
  \<open>\<Delta>v = width / vSegments\<close>, \<open>u\<^sub>i = i \<Delta>u\<close>, \<open>v\<^sub>j = (j / vSegments - 0.5) width\<close> and the
  partial derivatives in the closed form of the specification (\<open>spec_surface_area\<close>).
  The hypotheses \<open>radius > 0\<close> and \<open>width > 0\<close> of the claim are not needed.
\<close>

theorem calculateSurfaceArea_riemann_sum:
  assumes "10 \<le> resolution params"
  shows "calculateSurfaceArea params =
           spec_surface_area (radius params) (width params) (resolution params)"
  unfolding calculateSurfaceArea_sum area_element_def spec_surface_area_def Let_def
    magnitude_cross_spec vSegments_spec
  by (simp add: mult.assoc)

theorem calculateSurfaceArea_riemann_sum_witness:
  "calculateSurfaceArea \<lparr> radius = 1, width = 1 / 2, resolution = 20 \<rparr>
     = spec_surface_area 1 (1 / 2) 20"
  using calculateSurfaceArea_riemann_sum[of "\<lparr> radius = 1, width = 1 / 2, resolution = 20 \<rparr>"]
  by simp

text \<open>
  The closed forms are the partial derivatives of the parametrisation, coordinate by
  coordinate.
\<close>

lemma dr_du_derivative:
  "((\<lambda>u. x (calculateMobiusPoint u v R)) has_real_derivative fst (spec_dr_du u v R)) (at u)"
  "((\<lambda>u. y (calculateMobiusPoint u v R)) has_real_derivative fst (snd (spec_dr_du u v R))) (at u)"
  "((\<lambda>u. z (calculateMobiusPoint u v R)) has_real_derivative snd (snd (spec_dr_du u v R))) (at u)"
  unfolding calculateMobiusPoint_def spec_dr_du_def
  by (auto intro!: derivative_eq_intros simp: algebra_simps)

lemma dr_dv_derivative:
  "((\<lambda>v. x (calculateMobiusPoint u v R)) has_real_derivative fst (spec_dr_dv u v R)) (at v)"
  "((\<lambda>v. y (calculateMobiusPoint u v R)) has_real_derivative fst (snd (spec_dr_dv u v R))) (at v)"
  "((\<lambda>v. z (calculateMobiusPoint u v R)) has_real_derivative snd (snd (spec_dr_dv u v R))) (at v)"
  unfolding calculateMobiusPoint_def spec_dr_dv_def
  by (auto intro!: derivative_eq_intros simp: algebra_simps)

section \<open>Edge length\<close>

lemma distance_spec_euclid: "distance a b = spec_euclid a b"
  by (simp add: distance_def spec_euclid_def power2_eq_square algebra_simps)

lemma edge_fold:
  fixes P :: "nat \<Rightarrow> Point3D"
  shows "fold (\<lambda>i (prevPoint, len). (P i, len + distance prevPoint (P i))) [1..<Suc n] (P 0, s)
         = (P n, s + (\<Sum>i = 0..<n. distance (P i) (P (Suc i))))"
  by (induction n) simp_all

lemma calculateEdgeLength_sum:
  assumes "0 \<le> resolution params"
  shows "calculateEdgeLength params =
           (\<Sum>i = 0..<nat (resolution params).
               distance (spec_edge_point (radius params) (width params) (resolution params) i)
                        (spec_edge_point (radius params) (width params) (resolution params) (Suc i)))"
proof -
  let ?P = "spec_edge_point (radius params) (width params) (resolution params)"
  have n: "nat (resolution params + 1) = Suc (nat (resolution params))"
    using assms by simp
  have P0: "calculateMobiusPoint 0 (width params / 2) (radius params) = ?P 0"
    by (simp add: spec_edge_point_def)
  show ?thesis
    unfolding calculateEdgeLength_def Let_def n P0
    using edge_fold[of ?P "nat (resolution params)" 0]
    by (simp add: spec_edge_point_def[abs_def])
qed

text \<open>
  C2: for parameters with an integer resolution of at least 10, \<open>calculateEdgeLength\<close>
  returns the sum, over \<open>i\<close> in \<open>[0, resolution)\<close>, of the Euclidean distance between the
  points number \<open>i\<close> and \<open>i + 1\<close> of the \<open>resolution + 1\<close> points
  \<open>position(i (2\<pi> / resolution), width / 2, radius)\<close>: \<open>resolution\<close> segments, all on the
  boundary \<open>v = width / 2\<close>.
\<close>

theorem calculateEdgeLength_polyline:
  assumes "10 \<le> resolution params"
  shows "calculateEdgeLength params =
           (\<Sum>i = 0..<nat (resolution params).
               spec_euclid (spec_edge_point (radius params) (width params) (resolution params) i)
                           (spec_edge_point (radius params) (width params) (resolution params) (i + 1)))"
  using assms by (simp add: calculateEdgeLength_sum distance_spec_euclid)

theorem calculateEdgeLength_polyline_witness:
  "calculateEdgeLength \<lparr> radius = 1, width = 1 / 2, resolution = 20 \<rparr> =
     (\<Sum>i = 0..<20. spec_euclid (spec_edge_point 1 (1 / 2) 20 i) (spec_edge_point 1 (1 / 2) 20 (i + 1)))"
  using calculateEdgeLength_polyline[of "\<lparr> radius = 1, width = 1 / 2, resolution = 20 \<rparr>"]
  by simp

section \<open>Positivity\<close>

lemma area_element_nonneg:
  assumes "0 \<le> width params" "0 \<le> resolution params"
  shows "0 \<le> area_element params i j"
proof -
  have "0 \<le> vSegments (resolution params)" using vSegments_ge[of "resolution params"] by linarith
  then show ?thesis
    using assms by (simp add: area_element_def Let_def magnitude_def)
qed

lemma area_element_0_0_pos:
  assumes "0 < width params" "0 < resolution params"
  shows "0 < area_element params 0 0"
proof -
  let ?w = "width params" and ?R = "radius params"
  have vs: "0 < vSegments (resolution params)" using vSegments_ge[of "resolution params"] by linarith
  have "0 < (?w / 4) * (?w / 4)" using assms by simp
  also have "\<dots> \<le> (?w / 4) * (?w / 4) + (?R - ?w / 2) * (?R - ?w / 2)" by simp
  finally have "0 < sqrt ((?w / 4) * (?w / 4) + (?R - ?w / 2) * (?R - ?w / 2))" by simp
  moreover have "magnitude (crossProduct (fst (calculatePartialDerivatives 0 (- ?w / 2) ?R))
                                 (snd (calculatePartialDerivatives 0 (- ?w / 2) ?R)))
        = sqrt ((?w / 4) * (?w / 4) + (?R - ?w / 2) * (?R - ?w / 2))"
    by (simp add: magnitude_def crossProduct_def calculatePartialDerivatives_def algebra_simps)
  ultimately show ?thesis
    using assms vs by (simp add: area_element_def Let_def)
qed

lemma calculateSurfaceArea_pos:
  assumes "0 < width params" "0 < resolution params"
  shows "0 < calculateSurfaceArea params"
proof -
  let ?n = "nat (resolution params)" and ?m = "nat (vSegments (resolution params))"
  have m: "0 < ?m" using vSegments_ge[of "resolution params"] by simp
  have n: "0 < ?n" using assms by simp
  have nonneg: "0 \<le> area_element params i j" for i j
    using assms by (intro area_element_nonneg) simp_all
  let ?f = "\<lambda>i. \<Sum>j = 0..<?m. area_element params i j"
  have row0: "0 < ?f 0"
    by (rule sum_pos2[where i = 0]) (use m nonneg area_element_0_0_pos[OF assms] in simp_all)
  have rows: "0 \<le> ?f i" for i
    by (rule sum_nonneg) (rule nonneg)
  have "0 < sum ?f {0..<?n}"
    by (rule sum_pos2[where i = 0]) (use n row0 rows in simp_all)
  then show ?thesis by (simp add: calculateSurfaceArea_sum)
qed

lemma distance_nonneg: "0 \<le> distance a b"
  by (simp add: distance_def Let_def)

lemma distance_pos_z:
  assumes "z a \<noteq> z b"
  shows "0 < distance a b"
proof -
  have "0 < (z b - z a)\<^sup>2"
    using assms by simp
  then have "0 < (z b - z a) * (z b - z a)"
    by (simp add: power2_eq_square)
  moreover have "0 \<le> (x b - x a) * (x b - x a) + (y b - y a) * (y b - y a)" by simp
  ultimately have "0 < (x b - x a) * (x b - x a) + (y b - y a) * (y b - y a) + (z b - z a) * (z b - z a)"
    by linarith
  then show ?thesis by (simp add: distance_def Let_def)
qed

lemma edge_first_segment_pos:
  assumes "0 < width params" "2 \<le> resolution params"
  shows "0 < distance (spec_edge_point (radius params) (width params) (resolution params) 0)
                      (spec_edge_point (radius params) (width params) (resolution params) (Suc 0))"
proof (rule distance_pos_z)
  let ?n = "real_of_int (resolution params)"
  have n: "2 \<le> ?n" using assms by simp
  have "0 < pi / ?n" using n by simp
  moreover have "pi / ?n < pi"
  proof -
    have "pi / ?n \<le> pi / 2"
      by (rule frac_le) (use n in simp_all)
    also have "\<dots> < pi" by simp
    finally show ?thesis .
  qed
  ultimately have "0 < sin (pi / ?n)" by (rule sin_gt_zero)
  then have "width params \<noteq> 0" "sin (pi / ?n) \<noteq> 0" using assms by simp_all
  then show "z (spec_edge_point (radius params) (width params) (resolution params) 0)
        \<noteq> z (spec_edge_point (radius params) (width params) (resolution params) (Suc 0))"
    by (simp add: spec_edge_point_def calculateMobiusPoint_def)
qed

lemma calculateEdgeLength_pos:
  assumes "0 < width params" "2 \<le> resolution params"
  shows "0 < calculateEdgeLength params"
proof -
  let ?n = "nat (resolution params)"
  let ?P = "spec_edge_point (radius params) (width params) (resolution params)"
  have n: "0 < ?n" using assms by simp
  have "0 < (\<Sum>i = 0..<?n. distance (?P i) (?P (Suc i)))"
    by (rule sum_pos2[where i = 0])
       (use n edge_first_segment_pos[OF assms] distance_nonneg in simp_all)
  then show ?thesis using assms by (simp add: calculateEdgeLength_sum)
qed

text \<open>
  C8: for valid parameters (radius in \<open>[0.5, 5]\<close>, width in \<open>[0.1, 2]\<close>, integer
  resolution in \<open>[10, 200]\<close>) the surface area and the edge length returned by
  \<open>calculateSurfaceArea\<close> and \<open>calculateEdgeLength\<close> are strictly positive.
\<close>

theorem properties_positive:
  assumes "valid_params params"
  shows "0 < calculateSurfaceArea params \<and> 0 < calculateEdgeLength params"
proof -
  have "0 < width params" "0 < resolution params" "2 \<le> resolution params"
    using assms by (simp_all add: valid_params_def)
  then show ?thesis
    by (simp add: calculateSurfaceArea_pos calculateEdgeLength_pos)
qed

theorem properties_positive_witness:
  "0 < calculateSurfaceArea \<lparr> radius = 1, width = 1 / 2, resolution = 20 \<rparr>
   \<and> 0 < calculateEdgeLength \<lparr> radius = 1, width = 1 / 2, resolution = 20 \<rparr>"
  using properties_positive[of "\<lparr> radius = 1, width = 1 / 2, resolution = 20 \<rparr>"]
  by (simp add: valid_params_def)

section \<open>The grid\<close>

lemma for_each_append:
  "for_each (xs @ ys) body s =
     (case for_each xs body s of Inl e \<Rightarrow> Inl e | Inr s' \<Rightarrow> for_each ys body s')"
  by (induction xs arbitrary: s) (simp_all split: sum.splits)

lemma array_set_end: "array_set xs (length xs) v = xs @ [Some v]"
  by (simp add: array_set_def)

lemma set_cell_last:
  "set_cell (pts @ [Some row]) (length pts) (length row) p = Inr (pts @ [Some (row @ [Some p])])"
  by (simp add: set_cell_def array_set_end)

lemma fill_row:
  "for_each [0..<m] (\<lambda>j pts. set_cell pts (length done) j (f j)) (done @ [Some []])
     = Inr (done @ [Some (map (\<lambda>j. Some (f j)) [0..<m])])"
proof (induction m)
  case 0
  show ?case by simp
next
  case (Suc m)
  have "set_cell (done @ [Some (map (\<lambda>j. Some (f j)) [0..<m])]) (length done) m (f m)
          = Inr (done @ [Some (map (\<lambda>j. Some (f j)) [0..<m] @ [Some (f m)])])"
    using set_cell_last[of "done" "map (\<lambda>j. Some (f j)) [0..<m]" "f m"] by simp
  with Suc show ?case by (simp add: for_each_append)
qed

lemma fill_rows:
  "for_each [0..<n]
      (\<lambda>i pts. for_each [0..<m] (\<lambda>j pts. set_cell pts i j (f i j)) (array_set pts i [])) []
     = Inr (map (\<lambda>i. Some (map (\<lambda>j. Some (f i j)) [0..<m])) [0..<n])"
proof (induction n)
  case 0
  show ?case by simp
next
  case (Suc n)
  let ?done = "map (\<lambda>i. Some (map (\<lambda>j. Some (f i j)) [0..<m])) [0..<n]"
  have len: "length ?done = n" by simp
  have "for_each [0..<m] (\<lambda>j pts. set_cell pts n j (f n j)) (array_set ?done n [])
          = Inr (?done @ [Some (map (\<lambda>j. Some (f n j)) [0..<m])])"
    using fill_row[of m ?done "f n"] array_set_end[of ?done "[]"] by (simp only: len)
  with Suc show ?case by (simp add: for_each_append)
qed

lemma calculateMobiusStripData_points:
  "\<exists>d. calculateMobiusStripData params = Inr d \<and>
       points d =
         map (\<lambda>i. Some (map (\<lambda>j. Some (spec_grid_point (radius params) (width params) (resolution params) i j))
                          [0..<nat (vSegments (resolution params) + 1)]))
             [0..<nat (resolution params + 1)]"
  unfolding calculateMobiusStripData_def Let_def fill_rows spec_grid_point_def vSegments_spec
  by simp

text \<open>
  C4: for parameters with an integer resolution of at least 10, \<open>calculateMobiusStripData\<close>
  returns (it does not throw) a grid of exactly \<open>resolution + 1\<close> rows, every row
  \<open>i\<close> in \<open>[0, resolution]\<close> holds exactly \<open>vSegments + 1\<close> points with
  \<open>vSegments = max(10, floor(resolution / 5))\<close>, and the entry \<open>(i, j)\<close>, for \<open>j\<close> in
  \<open>[0, vSegments]\<close>, is \<open>position(i (2\<pi> / resolution), (j / vSegments - 0.5) width, radius)\<close>.
\<close>

theorem calculateMobiusStripData_grid:
  assumes "10 \<le> resolution params"
  shows "\<exists>d. calculateMobiusStripData params = Inr d \<and>
           int (length (points d)) = resolution params + 1 \<and>
           (\<forall>i \<le> nat (resolution params).
              \<exists>row. points d ! i = Some row \<and>
                int (length row) = spec_vSegments (resolution params) + 1 \<and>
                (\<forall>j \<le> nat (spec_vSegments (resolution params)).
                   row ! j = Some (calculateMobiusPoint
                                     (of_nat i * (2 * pi / of_int (resolution params)))
                                     ((of_nat j / of_int (spec_vSegments (resolution params)) - 0.5)
                                        * width params)
                                     (radius params))))"
proof -
  obtain d where d: "calculateMobiusStripData params = Inr d"
    and pts: "points d =
         map (\<lambda>i. Some (map (\<lambda>j. Some (spec_grid_point (radius params) (width params) (resolution params) i j))
                          [0..<nat (vSegments (resolution params) + 1)]))
             [0..<nat (resolution params + 1)]"
    using calculateMobiusStripData_points[of params] by blast
  have vs: "0 \<le> spec_vSegments (resolution params)"
    using vSegments_ge[of "resolution params"] by (simp add: vSegments_spec)
  have rows: "int (length (points d)) = resolution params + 1"
    using assms by (simp add: pts)
  have cells: "\<exists>row. points d ! i = Some row \<and>
                int (length row) = spec_vSegments (resolution params) + 1 \<and>
                (\<forall>j \<le> nat (spec_vSegments (resolution params)).
                   row ! j = Some (calculateMobiusPoint
                                     (of_nat i * (2 * pi / of_int (resolution params)))
                                     ((of_nat j / of_int (spec_vSegments (resolution params)) - 0.5)
                                        * width params)
                                     (radius params)))"
    if "i \<le> nat (resolution params)" for i
  proof -
    have i: "i < nat (resolution params + 1)" using that assms by linarith
    have j: "j < nat (spec_vSegments (resolution params) + 1)"
      if "j \<le> nat (spec_vSegments (resolution params))" for j
      using that vs by linarith
    show ?thesis
      using i j vs by (simp add: pts vSegments_spec spec_grid_point_def)
  qed
  show ?thesis using d rows cells by blast
qed


theorem calculateMobiusStripData_grid_witness:
  "\<exists>d row. calculateMobiusStripData \<lparr> radius = 1, width = 1 / 2, resolution = 20 \<rparr> = Inr d \<and>
      length (points d) = 21 \<and> points d ! 3 = Some row \<and> length row = 11 \<and>
      row ! 5 = Some (calculateMobiusPoint (3 * (2 * pi / 20)) 0 1)"
proof -
  let ?p = "\<lparr> radius = 1, width = 1 / 2, resolution = 20 \<rparr>"
  have vs: "spec_vSegments 20 = 10" by (simp add: spec_vSegments_def)
  from calculateMobiusStripData_grid[of ?p]
  obtain d where d: "calculateMobiusStripData ?p = Inr d"
    and len: "int (length (points d)) = 21"
    and rows: "\<forall>i \<le> 20. \<exists>row. points d ! i = Some row \<and> int (length row) = 11 \<and>
                (\<forall>j \<le> 10. row ! j = Some (calculateMobiusPoint (of_nat i * (2 * pi / 20))
                                            ((of_nat j / 10 - 0.5) * (1 / 2)) 1))"
    by (auto simp: vs)
  from rows[rule_format, of 3]
  obtain row where row: "points d ! 3 = Some row" "int (length row) = 11"
    and cells: "\<forall>j \<le> 10. row ! j = Some (calculateMobiusPoint (of_nat 3 * (2 * pi / 20))
                                            ((of_nat j / 10 - 0.5) * (1 / 2)) 1)"
    by auto
  from cells[rule_format, of 5]
  have "row ! 5 = Some (calculateMobiusPoint (3 * (2 * pi / 20)) 0 1)"
    by simp
  with d len row show ?thesis by auto
qed

section \<open>The mesh buffers\<close>

lemma fold_push: "fold (\<lambda>i acc. acc @ g i) xs acc = acc @ concat (map g xs)"
  by (induction xs arbitrary: acc) simp_all

lemma fold_push2:
  "fold (\<lambda>i (a, b). (a @ g i, b @ h i)) xs (a, b)
     = (a @ concat (map g xs), b @ concat (map h xs))"
  by (induction xs arbitrary: a b) simp_all

lemma generateMobiusGeometry_vertices:
  "vertices (generateMobiusGeometry params)
     = grid_of (nat (resolution params + 1)) (nat (vSegments (resolution params) + 1))
         (mesh_vertex params)"
  unfolding generateMobiusGeometry_def Let_def fold_push2 grid_of_def mesh_vertex_def
  by (simp add: split_def)

lemma generateMobiusGeometry_colors:
  "colors (generateMobiusGeometry params)
     = grid_of (nat (resolution params + 1)) (nat (vSegments (resolution params) + 1))
         (\<lambda>i. mesh_color params)"
  unfolding generateMobiusGeometry_def Let_def fold_push2 grid_of_def mesh_color_def
  by (simp add: split_def)

lemma generateMobiusGeometry_indices:
  "indices (generateMobiusGeometry params)
     = grid_of (nat (resolution params)) (nat (vSegments (resolution params)))
         (cell_indices (vSegments (resolution params)))"
  unfolding generateMobiusGeometry_def Let_def append_assoc fold_push grid_of_def cell_indices_def
  by (simp add: split_def)


lemma length_concat_blocks:
  assumes "\<And>a. a \<in> set xs \<Longrightarrow> length (f a) = k"
  shows "length (concat (map f xs)) = length xs * k"
  using assms by (induction xs) simp_all

lemma nth_concat_blocks:
  assumes "\<And>a. a \<in> set xs \<Longrightarrow> length (f a) = k" and "i < length xs" and "r < k"
  shows "concat (map f xs) ! (i * k + r) = f (xs ! i) ! r"
  using assms
proof (induction xs arbitrary: i)
  case Nil
  then show ?case by simp
next
  case (Cons a xs)
  show ?case
  proof (cases i)
    case 0
    with Cons.prems show ?thesis by (simp add: nth_append)
  next
    case (Suc i')
    have "concat (map f xs) ! (i' * k + r) = f (xs ! i') ! r"
      using Cons.prems Suc by (intro Cons.IH) simp_all
    with Cons.prems Suc show ?thesis by (simp add: nth_append)
  qed
qed

lemma length_grid_of:
  assumes "\<And>i j. length (f i j) = k"
  shows "length (grid_of n m f) = n * m * k"
proof -
  have row: "length (concat (map (f i) [0..<m])) = m * k" for i
    using length_concat_blocks[of "[0..<m]" "f i" k] assms by simp
  show ?thesis
    unfolding grid_of_def
    using length_concat_blocks[of "[0..<n]" "\<lambda>i. concat (map (f i) [0..<m])" "m * k"] row
    by simp
qed

lemma nth_grid_of:
  assumes len: "\<And>i j. length (f i j) = k" and "i < n" and "j < m" and "r < k"
  shows "grid_of n m f ! ((i * m + j) * k + r) = f i j ! r"
proof -
  have row: "length (concat (map (f i) [0..<m])) = m * k" for i
    using length_concat_blocks[of "[0..<m]" "f i" k] len by simp
  have "j * k + r < Suc j * k" using \<open>r < k\<close> by simp
  also have "\<dots> \<le> m * k" using \<open>j < m\<close> by (intro mult_le_mono1) simp
  finally have inner: "j * k + r < m * k" .
  have idx: "(i * m + j) * k + r = i * (m * k) + (j * k + r)"
    by (simp add: algebra_simps)
  have "grid_of n m f ! ((i * m + j) * k + r)
               = concat (map (\<lambda>i. concat (map (f i) [0..<m])) [0..<n]) ! (i * (m * k) + (j * k + r))"
    unfolding grid_of_def idx ..
  also have "\<dots> = concat (map (f i) [0..<m]) ! (j * k + r)"
    using nth_concat_blocks[of "[0..<n]" "\<lambda>i. concat (map (f i) [0..<m])" "m * k" i "j * k + r"]
      row inner \<open>i < n\<close> by simp
  also have "\<dots> = f i j ! r"
    using nth_concat_blocks[of "[0..<m]" "f i" k j r] len \<open>j < m\<close> \<open>r < k\<close> by simp
  finally show ?thesis .
qed

lemma set_grid_of: "set (grid_of n m f) = (\<Union>i\<in>{0..<n}. \<Union>j\<in>{0..<m}. set (f i j))"
  by (auto simp: grid_of_def)

lemma triangles_cell_append:
  "triangles (cell_indices vs i j @ rest) = cell_triangles vs i j @ triangles rest"
  by (simp add: cell_indices_def cell_triangles_def Let_def)

lemma triangles_row:
  "triangles (concat (map (cell_indices vs i) js) @ rest)
     = concat (map (cell_triangles vs i) js) @ triangles rest"
  by (induction js) (simp_all add: triangles_cell_append)

lemma triangles_rows:
  "triangles (concat (map (\<lambda>i. concat (map (cell_indices vs i) js)) is))
     = concat (map (\<lambda>i. concat (map (cell_triangles vs i) js)) is)"
  by (induction "is") (simp_all add: triangles_row)

lemma triangles_grid_of:
  "triangles (grid_of n m (cell_indices vs)) = grid_of n m (cell_triangles vs)"
  by (simp add: grid_of_def triangles_rows)

lemma generateMobiusGeometry_triangles:
  "triangles (indices (generateMobiusGeometry params))
     = grid_of (nat (resolution params)) (nat (vSegments (resolution params)))
         (cell_triangles (vSegments (resolution params)))"
  by (simp add: generateMobiusGeometry_indices triangles_grid_of)

section \<open>Counts and index bounds\<close>

lemma spec_vSegments_ge: "10 \<le> spec_vSegments n"
  by (simp add: spec_vSegments_def)

lemma cell_index_cases:
  assumes "k \<in> set (cell_indices vs i j)"
  shows "k = int i * (vs + 1) + int j \<or> k = int i * (vs + 1) + int j + 1
       \<or> k = int i * (vs + 1) + int j + vs + 1 \<or> k = int i * (vs + 1) + int j + vs + 2"
  using assms by (auto simp: cell_indices_def Let_def)

lemma cell_index_bounds:
  assumes "i < nat n" and "j < nat vs" and "k \<in> set (cell_indices vs i j)"
  shows "0 \<le> k \<and> k < (n + 1) * (vs + 1)"
proof -
  have i: "int i \<le> n - 1" and j: "int j \<le> vs - 1" and vs: "0 \<le> vs + 1"
    using assms by linarith+
  define a where "a = int i * (vs + 1) + int j"
  have "int i * (vs + 1) \<le> (n - 1) * (vs + 1)"
    using i vs by (rule mult_right_mono)
  then have hi: "a + vs + 2 < (n + 1) * (vs + 1)"
    using j by (simp add: a_def algebra_simps)
  have "0 \<le> int i * (vs + 1)"
    using vs by simp
  then have lo: "0 \<le> a"
    by (simp add: a_def)
  have "k = a \<or> k = a + 1 \<or> k = a + vs + 1 \<or> k = a + vs + 2"
    using cell_index_cases[OF assms(3)] by (simp add: a_def)
  with hi lo vs show ?thesis
    by linarith
qed

lemma length_cell_indices: "length (cell_indices vs i j) = 6"
  by (simp add: cell_indices_def Let_def)

lemma length_cell_triangles: "length (cell_triangles vs i j) = 2"
  by (simp add: cell_triangles_def Let_def)

lemma length_mesh_vertex: "length (mesh_vertex params i j) = 3"
  by (simp add: mesh_vertex_def Let_def)

lemma length_mesh_color: "length (mesh_color params j) = 3"
  by (simp add: mesh_color_def Let_def)

lemma int_grid_size:
  assumes "0 \<le> a" and "0 \<le> b"
  shows "int (nat a * nat b * k) = a * b * int k"
  using assms by simp

text \<open>
  C5: for parameters with an integer resolution of at least 10, \<open>generateMobiusGeometry\<close>
  emits exactly \<open>2 resolution vSegments\<close> triangles (an index buffer of length
  \<open>6 resolution vSegments\<close>) and exactly \<open>(resolution + 1) (vSegments + 1)\<close> vertices (three
  coordinates each), and every emitted index is at least 0 and less than
  \<open>(resolution + 1) (vSegments + 1)\<close>, so it names a vertex that the position buffer holds.
\<close>

theorem generateMobiusGeometry_counts:
  assumes "10 \<le> resolution params"
  shows "int (length (triangles (indices (generateMobiusGeometry params))))
           = 2 * resolution params * spec_vSegments (resolution params)
       \<and> int (length (indices (generateMobiusGeometry params)))
           = 6 * resolution params * spec_vSegments (resolution params)
       \<and> int (length (vertices (generateMobiusGeometry params)))
           = 3 * ((resolution params + 1) * (spec_vSegments (resolution params) + 1))
       \<and> (\<forall>k \<in> set (indices (generateMobiusGeometry params)).
             0 \<le> k \<and> k < (resolution params + 1) * (spec_vSegments (resolution params) + 1)
             \<and> vertex_at (generateMobiusGeometry params) (nat k) \<noteq> None)"
proof -
  let ?g = "generateMobiusGeometry params"
  let ?n = "resolution params" and ?vs = "spec_vSegments (resolution params)"
  have n: "0 \<le> ?n" and vs: "0 \<le> ?vs"
    using assms spec_vSegments_ge[of ?n] by linarith+
  have "length (triangles (indices ?g)) = nat ?n * nat ?vs * 2"
    unfolding generateMobiusGeometry_triangles vSegments_spec
    by (rule length_grid_of) (rule length_cell_triangles)
  then have tri: "int (length (triangles (indices ?g))) = 2 * ?n * ?vs"
    using int_grid_size[OF n vs, of 2] by simp
  have "length (indices ?g) = nat ?n * nat ?vs * 6"
    unfolding generateMobiusGeometry_indices vSegments_spec
    by (rule length_grid_of) (rule length_cell_indices)
  then have ind: "int (length (indices ?g)) = 6 * ?n * ?vs"
    using int_grid_size[OF n vs, of 6] by simp
  have n1: "0 \<le> ?n + 1" and vs1: "0 \<le> ?vs + 1"
    using n vs by linarith+
  have "length (vertices ?g) = nat (?n + 1) * nat (?vs + 1) * 3"
    unfolding generateMobiusGeometry_vertices vSegments_spec
    by (rule length_grid_of) (rule length_mesh_vertex)
  then have vert: "int (length (vertices ?g)) = 3 * ((?n + 1) * (?vs + 1))"
    using int_grid_size[OF n1 vs1, of 3] by simp
  have bound: "0 \<le> k \<and> k < (?n + 1) * (?vs + 1) \<and> vertex_at ?g (nat k) \<noteq> None"
    if "k \<in> set (indices ?g)" for k
  proof -
    from that obtain i j where "i < nat ?n" "j < nat ?vs" "k \<in> set (cell_indices ?vs i j)"
      by (auto simp: generateMobiusGeometry_indices vSegments_spec set_grid_of)
    then have k: "0 \<le> k" "k < (?n + 1) * (?vs + 1)"
      using cell_index_bounds[of i ?n j ?vs k] by simp_all
    then have "3 * k + 2 < int (length (vertices ?g))"
      unfolding vert by linarith
    then have "3 * nat k + 2 < length (vertices ?g)"
      using k(1) by linarith
    then show ?thesis using k by (simp add: vertex_at_def)
  qed
  from tri ind vert bound show ?thesis by blast
qed


lemma mem_grid_of: "a \<in> set (grid_of n m f) \<longleftrightarrow> (\<exists>i < n. \<exists>j < m. a \<in> set (f i j))"
  unfolding set_grid_of by fastforce

lemma mem_indices_iff:
  "k \<in> set (indices (generateMobiusGeometry params)) \<longleftrightarrow>
     (\<exists>i < nat (resolution params). \<exists>j < nat (spec_vSegments (resolution params)).
        k \<in> set (cell_indices (spec_vSegments (resolution params)) i j))"
  by (simp add: generateMobiusGeometry_indices vSegments_spec mem_grid_of)

lemma mem_triangles_iff:
  "t \<in> set (triangles (indices (generateMobiusGeometry params))) \<longleftrightarrow>
     (\<exists>i < nat (resolution params). \<exists>j < nat (spec_vSegments (resolution params)).
        t \<in> set (cell_triangles (spec_vSegments (resolution params)) i j))"
  by (simp add: generateMobiusGeometry_triangles vSegments_spec mem_grid_of)

theorem generateMobiusGeometry_counts_witness:
  "length (triangles (indices (generateMobiusGeometry \<lparr> radius = 1, width = 1 / 2, resolution = 10 \<rparr>))) = 200
   \<and> length (indices (generateMobiusGeometry \<lparr> radius = 1, width = 1 / 2, resolution = 10 \<rparr>)) = 600
   \<and> length (vertices (generateMobiusGeometry \<lparr> radius = 1, width = 1 / 2, resolution = 10 \<rparr>)) = 363
   \<and> 120 \<in> set (indices (generateMobiusGeometry \<lparr> radius = 1, width = 1 / 2, resolution = 10 \<rparr>))
   \<and> vertex_at (generateMobiusGeometry \<lparr> radius = 1, width = 1 / 2, resolution = 10 \<rparr>) 120 \<noteq> None"
proof -
  let ?p = "\<lparr> radius = 1, width = 1 / 2, resolution = 10 \<rparr>"
  have vs: "spec_vSegments 10 = 10" by (simp add: spec_vSegments_def)
  have "(120::int) \<in> set (cell_indices 10 9 9)"
    by (simp add: cell_indices_def)
  then have mem: "120 \<in> set (indices (generateMobiusGeometry ?p))"
    unfolding mem_indices_iff by (auto simp: vs intro!: exI[of _ 9])
  from generateMobiusGeometry_counts[of ?p] mem show ?thesis
    by (auto simp: vs)
qed

section \<open>The seam and the shape of the triangles\<close>

lemma cell_triangle_cases:
  assumes "t \<in> set (cell_triangles vs i j)"
  shows "\<exists>a. a = int i * (vs + 1) + int j \<and>
             (t = (a, a + 1, a + vs + 2) \<or> t = (a, a + vs + 2, a + vs + 1))"
  using assms by (auto simp: cell_triangles_def Let_def)

lemma cell_triangle_no_seam:
  assumes n: "2 \<le> n" and vs: "0 \<le> vs" and j: "j < nat vs"
    and t: "(p, q, r) \<in> set (cell_triangles vs i j)"
  shows "\<not> ((n * (vs + 1) \<le> p \<or> n * (vs + 1) \<le> q \<or> n * (vs + 1) \<le> r)
            \<and> (p \<le> vs \<or> q \<le> vs \<or> r \<le> vs))"
proof
  assume seam: "(n * (vs + 1) \<le> p \<or> n * (vs + 1) \<le> q \<or> n * (vs + 1) \<le> r)
            \<and> (p \<le> vs \<or> q \<le> vs \<or> r \<le> vs)"
  define a where "a = int i * (vs + 1) + int j"
  have shape: "(p, q, r) = (a, a + 1, a + vs + 2) \<or> (p, q, r) = (a, a + vs + 2, a + vs + 1)"
    using cell_triangle_cases[OF t] by (simp add: a_def)
  have j': "int j \<le> vs - 1" using j by linarith
  have "0 \<le> int i * (vs + 1)" using vs by simp
  then have a0: "0 \<le> a" by (simp add: a_def)
  from seam shape a0 vs have low: "a \<le> vs" by auto
  have i0: "i = 0"
  proof (rule ccontr)
    assume "i \<noteq> 0"
    then have "1 \<le> int i" by simp
    then have "1 * (vs + 1) \<le> int i * (vs + 1)"
      using vs by (intro mult_right_mono) simp_all
    then show False using low by (simp add: a_def)
  qed
  have "2 * (vs + 1) \<le> n * (vs + 1)"
    using n vs by (intro mult_right_mono) simp_all
  moreover have "a + vs + 2 < 2 * (vs + 1)"
    using i0 j' by (simp add: a_def)
  ultimately have "a + vs + 2 < n * (vs + 1)" by linarith
  with seam shape vs show False by auto
qed

text \<open>
  C6: for parameters with an integer resolution of at least 10, every triangle emitted by
  \<open>generateMobiusGeometry\<close> belongs to a cell \<open>(i, j)\<close> with \<open>i\<close> in \<open>[0, resolution)\<close> and
  \<open>j\<close> in \<open>[0, vSegments)\<close>, and no triangle has both a vertex of row \<open>resolution\<close> (index at
  least \<open>resolution (vSegments + 1)\<close>) and a vertex of row 0 (index at most \<open>vSegments\<close>):
  the seam between the last row and the first row stays open.
\<close>

theorem generateMobiusGeometry_open_seam:
  assumes "10 \<le> resolution params"
  shows "\<forall>(p, q, r) \<in> set (triangles (indices (generateMobiusGeometry params))).
           (\<exists>i < nat (resolution params). \<exists>j < nat (spec_vSegments (resolution params)).
              (p, q, r) \<in> set (cell_triangles (spec_vSegments (resolution params)) i j))
         \<and> \<not> ((resolution params * (spec_vSegments (resolution params) + 1) \<le> p
               \<or> resolution params * (spec_vSegments (resolution params) + 1) \<le> q
               \<or> resolution params * (spec_vSegments (resolution params) + 1) \<le> r)
              \<and> (p \<le> spec_vSegments (resolution params)
                 \<or> q \<le> spec_vSegments (resolution params)
                 \<or> r \<le> spec_vSegments (resolution params)))"
proof (intro ballI, clarify)
  fix p q r
  let ?n = "resolution params" and ?vs = "spec_vSegments (resolution params)"
  assume "(p, q, r) \<in> set (triangles (indices (generateMobiusGeometry params)))"
  then obtain i j where ij: "i < nat ?n" "j < nat ?vs"
    and t: "(p, q, r) \<in> set (cell_triangles ?vs i j)"
    unfolding mem_triangles_iff by blast
  have "2 \<le> ?n" "0 \<le> ?vs"
    using assms spec_vSegments_ge[of ?n] by linarith+
  then have "\<not> ((?n * (?vs + 1) \<le> p \<or> ?n * (?vs + 1) \<le> q \<or> ?n * (?vs + 1) \<le> r)
            \<and> (p \<le> ?vs \<or> q \<le> ?vs \<or> r \<le> ?vs))"
    using ij(2) t by (rule cell_triangle_no_seam)
  with ij t show "(\<exists>i < nat ?n. \<exists>j < nat ?vs. (p, q, r) \<in> set (cell_triangles ?vs i j))
         \<and> \<not> ((?n * (?vs + 1) \<le> p \<or> ?n * (?vs + 1) \<le> q \<or> ?n * (?vs + 1) \<le> r)
              \<and> (p \<le> ?vs \<or> q \<le> ?vs \<or> r \<le> ?vs))"
    by blast
qed

text \<open>
  C10: for parameters with an integer resolution of at least 10, every triangle emitted by
  \<open>generateMobiusGeometry\<close> is \<open>(a, a + 1, a + vSegments + 2)\<close> or
  \<open>(a, a + vSegments + 2, a + vSegments + 1)\<close> for some \<open>a\<close>, and its three vertex indices
  are pairwise distinct.
\<close>

theorem generateMobiusGeometry_triangles_distinct:
  assumes "10 \<le> resolution params"
  shows "\<forall>(p, q, r) \<in> set (triangles (indices (generateMobiusGeometry params))).
           (\<exists>a. (p, q, r) = (a, a + 1, a + spec_vSegments (resolution params) + 2)
               \<or> (p, q, r) = (a, a + spec_vSegments (resolution params) + 2,
                               a + spec_vSegments (resolution params) + 1))
         \<and> p \<noteq> q \<and> q \<noteq> r \<and> p \<noteq> r"
proof (intro ballI, clarify)
  fix p q r
  let ?vs = "spec_vSegments (resolution params)"
  assume "(p, q, r) \<in> set (triangles (indices (generateMobiusGeometry params)))"
  then obtain i j where "(p, q, r) \<in> set (cell_triangles ?vs i j)"
    unfolding mem_triangles_iff by blast
  then obtain a where shape: "(p, q, r) = (a, a + 1, a + ?vs + 2) \<or> (p, q, r) = (a, a + ?vs + 2, a + ?vs + 1)"
    using cell_triangle_cases by blast
  moreover have "10 \<le> ?vs" by (rule spec_vSegments_ge)
  ultimately have "p \<noteq> q \<and> q \<noteq> r \<and> p \<noteq> r" by auto
  with shape show "(\<exists>a. (p, q, r) = (a, a + 1, a + ?vs + 2) \<or> (p, q, r) = (a, a + ?vs + 2, a + ?vs + 1))
         \<and> p \<noteq> q \<and> q \<noteq> r \<and> p \<noteq> r"
    by blast
qed


theorem generateMobiusGeometry_open_seam_witness:
  "(108, 120, 119) \<in> set (triangles (indices (generateMobiusGeometry \<lparr> radius = 1, width = 1 / 2, resolution = 10 \<rparr>)))
   \<and> (\<exists>i < 10. \<exists>j < 10. (108, 120, 119) \<in> set (cell_triangles 10 i j))
   \<and> \<not> (((110::int) \<le> 108 \<or> (110::int) \<le> 120 \<or> (110::int) \<le> 119)
          \<and> ((108::int) \<le> 10 \<or> (120::int) \<le> 10 \<or> (119::int) \<le> 10))"
proof -
  let ?p = "\<lparr> radius = 1, width = 1 / 2, resolution = 10 \<rparr>"
  have vs: "spec_vSegments 10 = 10" by (simp add: spec_vSegments_def)
  have "(108, 120, 119) \<in> set (cell_triangles 10 9 9)"
    by (simp add: cell_triangles_def)
  then have mem: "(108, 120, 119) \<in> set (triangles (indices (generateMobiusGeometry ?p)))"
    unfolding mem_triangles_iff by (auto simp: vs intro!: exI[of _ 9])
  from generateMobiusGeometry_open_seam[of ?p, THEN bspec, OF _ mem] mem show ?thesis
    by (simp add: vs)
qed

theorem generateMobiusGeometry_triangles_distinct_witness:
  "(0, 1, 12) \<in> set (triangles (indices (generateMobiusGeometry \<lparr> radius = 1, width = 1 / 2, resolution = 10 \<rparr>)))
   \<and> (\<exists>a::int. (0, 1, 12) = (a, a + 1, a + 10 + 2) \<or> (0, 1, 12) = (a, a + 10 + 2, a + 10 + 1))
   \<and> (0::int) \<noteq> 1 \<and> (1::int) \<noteq> 12 \<and> (0::int) \<noteq> 12"
proof -
  let ?p = "\<lparr> radius = 1, width = 1 / 2, resolution = 10 \<rparr>"
  have vs: "spec_vSegments 10 = 10" by (simp add: spec_vSegments_def)
  have "(0, 1, 12) \<in> set (cell_triangles 10 0 0)"
    by (simp add: cell_triangles_def)
  then have mem: "(0, 1, 12) \<in> set (triangles (indices (generateMobiusGeometry ?p)))"
    unfolding mem_triangles_iff by (auto simp: vs intro!: exI[of _ 0])
  from generateMobiusGeometry_triangles_distinct[of ?p, THEN bspec, OF _ mem] mem show ?thesis
    by (simp add: vs)
qed

section \<open>Vertex positions\<close>






text \<open>
  The rounding on a few values: a repeating fraction, a negative number, the two kinds of
  tie above \<open>2\<^sup>5\<^sup>3\<close>, and a row at which the two angle computations agree.
\<close>

lemma fl64_examples:
  "fl64 (1 / 3) = Some (6004799503160661 / 18014398509481984)"
  "fl64 (- 1 / 10) = Some (- (3602879701896397 / 36028797018963968))"
  "fl64 (2 ^ 53 + 1) = Some (2 ^ 53)"
  "fl64 (2 ^ 53 + 3) = Some (2 ^ 53 + 4)"
  by (simp_all add: fl64_def round_half_even_def pow2_def Let_def)

lemma angle_f64_row_3:
  "generateMobiusGeometry_u_f64 3 20 = calculateMobiusStripData_u_f64 3 20"
  by (simp add: generateMobiusGeometry_u_f64_def calculateMobiusStripData_u_f64_def
        f64_mul_def f64_div_def Math_PI_def fl64_def round_half_even_def pow2_def Let_def)


section \<open>Vertex colours\<close>

lemma mesh_color_spec:
  "mesh_color params j =
     (case spec_color ((of_nat j / of_int (spec_vSegments (resolution params)) - 0.5) * width params)
             (width params)
      of (r, g, b) \<Rightarrow> [r, g, b])"
  by (simp add: mesh_color_def spec_color_def Let_def vSegments_spec)

lemma color_at_grid:
  assumes "i < n" and "j < m" and "\<And>i j. length (f i j) = 3"
    and "colors g = grid_of n m f"
  shows "color_at g (i * m + j) = Some (f i j ! 0, f i j ! 1, f i j ! 2)"
proof -
  have len: "length (colors g) = n * m * 3"
    using assms(3,4) by (simp add: length_grid_of)
  have "Suc (i * m + j) \<le> n * m"
  proof -
    have "Suc (i * m + j) \<le> i * m + m" using assms(2) by simp
    also have "\<dots> = Suc i * m" by simp
    also have "\<dots> \<le> n * m" using assms(1) by (intro mult_le_mono1) simp
    finally show ?thesis .
  qed
  then have inb: "3 * (i * m + j) + 2 < length (colors g)"
    unfolding len by (simp add: mult.commute[of _ 3])
  have nth: "colors g ! (3 * (i * m + j) + r) = f i j ! r" if "r < 3" for r
    using nth_grid_of[of f 3 i n j m r] assms that by (simp add: mult.commute)
  show ?thesis
    using inb nth[of 0] nth[of 1] nth[of 2] by (simp add: color_at_def)
qed

lemma color_factor_range:
  assumes w: "0 < w" and vs: "0 < vs" and j: "j \<le> nat vs"
  shows "0 \<le> \<bar>(real j / real_of_int vs - 0.5) * w\<bar> / (w / 2)
       \<and> \<bar>(real j / real_of_int vs - 0.5) * w\<bar> / (w / 2) \<le> 1"
proof -
  define t where "t = real j / real_of_int vs"
  have "real j \<le> real_of_int vs" using j vs by linarith
  then have t: "0 \<le> t" "t \<le> 1" using vs by (simp_all add: t_def)
  have eq: "\<bar>(t - 0.5) * w\<bar> / (w / 2) = 2 * \<bar>t - 0.5\<bar>"
    using w by (simp add: abs_mult)
  have "0 \<le> 2 * \<bar>t - 0.5\<bar>" by simp
  moreover have "\<bar>t - 1 / 2\<bar> \<le> 1 / 2" using t by linarith
  then have "2 * \<bar>t - 0.5\<bar> \<le> 1" by simp
  ultimately have "0 \<le> \<bar>(t - 0.5) * w\<bar> / (w / 2) \<and> \<bar>(t - 0.5) * w\<bar> / (w / 2) \<le> 1"
    unfolding eq by blast
  then show ?thesis unfolding t_def .
qed

lemma spec_color_range:
  assumes f0: "0 \<le> \<bar>v\<bar> / (w / 2)" and f1: "\<bar>v\<bar> / (w / 2) \<le> 1"
    and c: "spec_color v w = (r, g, b)"
  shows "0 \<le> r \<and> r \<le> 1 \<and> 0 \<le> g \<and> g \<le> 1 \<and> 0 \<le> b \<and> b \<le> 1"
proof -
  define f where "f = \<bar>v\<bar> / (w / 2)"
  have rgb: "r = 2 / 10 + 3 / 10 * f" "g = 8 / 10 - 2 / 10 * f" "b = 6 / 10 + 2 / 10 * f"
    using c by (simp_all add: spec_color_def Let_def f_def)
  have "0 \<le> f" "f \<le> 1" using f0 f1 by (simp_all add: f_def)
  then show ?thesis unfolding rgb by linarith
qed


text \<open>
  C9: for parameters with \<open>width > 0\<close> and a non-negative integer resolution, and every
  vertex \<open>(i, j)\<close> with \<open>i\<close> in \<open>[0, resolution]\<close> and \<open>j\<close> in \<open>[0, vSegments]\<close>, sampled
  at \<open>v = (j / vSegments - 0.5) width\<close>, the colour that \<open>generateMobiusGeometry\<close> stores is
  \<open>(0.2 + 0.3 f, 0.8 - 0.2 f, 0.6 + 0.2 f)\<close> with \<open>f = |v| / (width / 2)\<close>
  (\<open>spec_color v width\<close>); it is the same in every row \<open>i'\<close>; it is \<open>(0.2, 0.8, 0.6)\<close> where
  \<open>v = 0\<close> and \<open>(0.5, 0.6, 0.8)\<close> where \<open>|v| = width / 2\<close>; and every component in the
  colour buffer lies in \<open>[0, 1]\<close>.
\<close>

theorem generateMobiusGeometry_vertex_color:
  assumes "0 < width params" and "0 \<le> resolution params"
    and "i \<le> nat (resolution params)"
    and "j \<le> nat (spec_vSegments (resolution params))"
  shows "color_at (generateMobiusGeometry params)
             (i * (nat (spec_vSegments (resolution params)) + 1) + j)
           = Some (spec_color
                     ((of_nat j / of_int (spec_vSegments (resolution params)) - 0.5) * width params)
                     (width params))
       \<and> (\<forall>i' \<le> nat (resolution params).
             color_at (generateMobiusGeometry params)
                 (i' * (nat (spec_vSegments (resolution params)) + 1) + j)
               = color_at (generateMobiusGeometry params)
                   (i * (nat (spec_vSegments (resolution params)) + 1) + j))
       \<and> ((of_nat j / of_int (spec_vSegments (resolution params)) - 0.5) * width params = 0
            \<longrightarrow> color_at (generateMobiusGeometry params)
                  (i * (nat (spec_vSegments (resolution params)) + 1) + j)
                = Some (0.2, 0.8, 0.6))
       \<and> (\<bar>(of_nat j / of_int (spec_vSegments (resolution params)) - 0.5) * width params\<bar>
              = width params / 2
            \<longrightarrow> color_at (generateMobiusGeometry params)
                  (i * (nat (spec_vSegments (resolution params)) + 1) + j)
                = Some (0.5, 0.6, 0.8))
       \<and> (\<forall>c \<in> set (colors (generateMobiusGeometry params)). 0 \<le> c \<and> c \<le> 1)"
proof -
  let ?g = "generateMobiusGeometry params"
  let ?vs = "spec_vSegments (resolution params)"
  let ?n = "nat (resolution params + 1)" and ?m = "nat (?vs + 1)"
  let ?v = "\<lambda>j. (real j / real_of_int ?vs - 0.5) * width params"
  have vs: "0 < ?vs"
    using spec_vSegments_ge[of "resolution params"] by linarith
  have m: "nat ?vs + 1 = ?m"
    using vs by linarith
  have j: "j < ?m"
    using assms vs by linarith
  have rows: "i' < ?n" if "i' \<le> nat (resolution params)" for i'
    using that assms(2) by linarith
  have buf: "colors ?g = grid_of ?n ?m (\<lambda>i. mesh_color params)"
    by (simp add: generateMobiusGeometry_colors vSegments_spec)
  have at: "color_at ?g (i' * ?m + j') = Some (spec_color (?v j') (width params))"
    if "i' < ?n" and "j' < ?m" for i' j'
  proof -
    have "color_at ?g (i' * ?m + j')
            = Some (mesh_color params j' ! 0, mesh_color params j' ! 1, mesh_color params j' ! 2)"
      using that length_mesh_color buf by (rule color_at_grid)
    then show ?thesis
      by (simp add: mesh_color_spec split: prod.splits)
  qed
  have c1: "color_at ?g (i * ?m + j) = Some (spec_color (?v j) (width params))"
    using rows[OF assms(3)] j by (rule at)
  have c2: "\<forall>i' \<le> nat (resolution params). color_at ?g (i' * ?m + j) = color_at ?g (i * ?m + j)"
    using at[OF rows j] c1 by simp
  have c3: "?v j = 0 \<longrightarrow> color_at ?g (i * ?m + j) = Some (0.2, 0.8, 0.6)"
    unfolding c1 by (simp add: spec_color_def)
  have c4: "\<bar>?v j\<bar> = width params / 2 \<longrightarrow> color_at ?g (i * ?m + j) = Some (0.5, 0.6, 0.8)"
    unfolding c1 using assms(1) by (simp add: spec_color_def)
  have c5: "0 \<le> c \<and> c \<le> 1" if "c \<in> set (colors ?g)" for c
  proof -
    from that obtain j' where j': "j' < ?m" and c: "c \<in> set (mesh_color params j')"
      unfolding buf mem_grid_of by blast
    obtain r g b where rgb: "spec_color (?v j') (width params) = (r, g, b)"
      by (cases "spec_color (?v j') (width params)")
    have "j' \<le> nat ?vs" using j' vs by linarith
    then have "0 \<le> \<bar>?v j'\<bar> / (width params / 2) \<and> \<bar>?v j'\<bar> / (width params / 2) \<le> 1"
      using assms(1) vs by (intro color_factor_range)
    then have "0 \<le> r \<and> r \<le> 1 \<and> 0 \<le> g \<and> g \<le> 1 \<and> 0 \<le> b \<and> b \<le> 1"
      using rgb by (intro spec_color_range) simp_all
    moreover have "c = r \<or> c = g \<or> c = b"
      using c rgb by (simp add: mesh_color_spec)
    ultimately show ?thesis by blast
  qed
  from c1 c2 c3 c4 c5 show ?thesis
    unfolding m by blast
qed

theorem generateMobiusGeometry_vertex_color_witness:
  "color_at (generateMobiusGeometry \<lparr> radius = 1, width = 2, resolution = 10 \<rparr>) 27 = Some (0.2, 0.8, 0.6)
   \<and> color_at (generateMobiusGeometry \<lparr> radius = 1, width = 2, resolution = 10 \<rparr>) 5
       = color_at (generateMobiusGeometry \<lparr> radius = 1, width = 2, resolution = 10 \<rparr>) 27
   \<and> color_at (generateMobiusGeometry \<lparr> radius = 1, width = 2, resolution = 10 \<rparr>) 22 = Some (0.5, 0.6, 0.8)
   \<and> color_at (generateMobiusGeometry \<lparr> radius = 1, width = 2, resolution = 10 \<rparr>) 32 = Some (0.5, 0.6, 0.8)"
proof -
  let ?p = "\<lparr> radius = 1, width = 2, resolution = 10 \<rparr>"
  have vs: "spec_vSegments 10 = 10" by (simp add: spec_vSegments_def)
  from generateMobiusGeometry_vertex_color[of ?p 2 5]
  have centre: "color_at (generateMobiusGeometry ?p) 27 = Some (0.2, 0.8, 0.6)"
    and same: "\<forall>i' \<le> 10. color_at (generateMobiusGeometry ?p) (i' * 11 + 5)
                 = color_at (generateMobiusGeometry ?p) 27"
    by (simp_all add: vs spec_color_def)
  from same[rule_format, of 0]
  have row0: "color_at (generateMobiusGeometry ?p) 5 = color_at (generateMobiusGeometry ?p) 27"
    by simp
  from generateMobiusGeometry_vertex_color[of ?p 2 0]
  have lower: "color_at (generateMobiusGeometry ?p) 22 = Some (0.5, 0.6, 0.8)"
    by (simp add: vs spec_color_def)
  from generateMobiusGeometry_vertex_color[of ?p 2 10]
  have upper: "color_at (generateMobiusGeometry ?p) 32 = Some (0.5, 0.6, 0.8)"
    by (simp add: vs spec_color_def)
  from centre row0 lower upper show ?thesis by simp
qed

end
